theory Spec2Isabelle
  imports Main
begin

section \<open>The lifecycle state of app.js\<close>

text \<open>
  \<^verbatim>\<open>src/app/app.js\<close> keeps one module-level object \<^verbatim>\<open>state\<close> and one interval handle
  \<^verbatim>\<open>probeId\<close>, and reacts to what the Node event loop delivers: termination signals, timers,
  the interval, settled promises and the completion callbacks of the three connection
  objects. Each reaction runs to completion before the next one starts, so a reaction is a
  function from the state of the process to the state of the process, and an execution is a
  list of events.
\<close>

record connections =
  data :: bool
  email :: bool
  queue :: bool

record state =
  connections :: connections
  mounted :: bool
  ready :: bool
  shutdown :: bool

text \<open>The literal of lines 20 to 29.\<close>

definition initial_state :: state where
  "initial_state =
     \<lparr>connections = \<lparr>data = False, email = True, queue = False\<rparr>,
      mounted = False, ready = False, shutdown = False\<rparr>"

text \<open>
  \<^verbatim>\<open>Object.values(state.connections).every(x => x)\<close>: the values in the order the
  properties were created, and the conjunction of all of them.
\<close>

definition object_values :: "connections \<Rightarrow> bool list" where
  "object_values c = [data c, email c, queue c]"

definition every :: "bool list \<Rightarrow> bool" where
  "every xs = list_all (\<lambda>x. x) xs"

subsection \<open>The readiness gate (lines 68 to 76)\<close>

datatype problem = Problem nat string

datatype 'req outcome = Send problem | Next 'req

definition gate :: "state \<Rightarrow> 'req \<Rightarrow> 'req outcome" where
  "gate s req =
     (if shutdown s then Send (Problem 503 ''Server is shutting down'')
      else if \<not> ready s \<or> \<not> mounted s then Send (Problem 503 ''Server is not ready'')
      else Next req)"

subsection \<open>The process around the state\<close>

text \<open>
  What the module shares with its collaborators and with the runtime:
  the pending \<^verbatim>\<open>setTimeout\<close> timers with their due times, the next due time of the
  \<^verbatim>\<open>setInterval\<close> behind \<^verbatim>\<open>probeId\<close> (none once cleared), \<^verbatim>\<open>process.exitCode\<close>, the start-up
  batch and the periodic batches still in flight (each periodic batch with the
  \<^verbatim>\<open>wasMounted\<close> its closure captured), the \<^verbatim>\<open>close\<close> calls whose callback has not fired
  yet, the exit status once \<^verbatim>\<open>process.exit\<close> was called, and a history of the calls made on
  the collaborators and of their callbacks, most recent first.
  Times are in milliseconds.
\<close>

datatype node_env = Test | Production | Other

datatype dep = Queue | Email | Data

datatype callback = Cleanup | ForcedExit

datatype level = Info | Verbose | Error

datatype action =
    QueuePause
  | ClearInterval
  | CloseCall dep
  | CloseDone dep
  | MountServices
  | ProbeBatch
  | ProcessExit nat

record process =
  st :: state
  probeId :: "nat option"
  exitCode :: "nat option"
  now :: nat
  timers :: "(nat \<times> callback) list"
  init_pending :: bool
  inflight :: "bool list"
  closing :: "dep list"
  exited :: "nat option"
  env :: node_env
  history :: "action list"
  logs :: "(level \<times> string) list"

definition log :: "level \<Rightarrow> string \<Rightarrow> process \<Rightarrow> process" where
  "log l m p = p\<lparr>logs := (l, m) # logs p\<rparr>"

definition did :: "action \<Rightarrow> process \<Rightarrow> process" where
  "did a p = p\<lparr>history := a # history p\<rparr>"

definition setTimeout :: "callback \<Rightarrow> nat \<Rightarrow> process \<Rightarrow> process" where
  "setTimeout cb ms p = p\<lparr>timers := timers p @ [(now p + ms, cb)]\<rparr>"

text \<open>
  \<^verbatim>\<open>process.exit()\<close> with no argument exits with \<^verbatim>\<open>process.exitCode\<close>, or 0 when it was
  never set; the \<^verbatim>\<open>exit\<close> listener of line 133 logs first.
\<close>

definition process_exit :: "process \<Rightarrow> process" where
  "process_exit p =
     (let code = (case exitCode p of None \<Rightarrow> 0 | Some c \<Rightarrow> c)
      in (did (ProcessExit code) (log Info ''Exiting...'' p))\<lparr>exited := Some code\<rparr>)"

subsection \<open>shutdown and cleanup (lines 141 to 170)\<close>

definition shutdown_fn :: "process \<Rightarrow> process" where
  "shutdown_fn p =
     (let p1 = log Info ''Received kill signal. Shutting down...'' p;
          p2 = did QueuePause p1
      in if \<not> shutdown (st p2) then setTimeout Cleanup 5000 p2 else p2)"

definition cleanup :: "process \<Rightarrow> process" where
  "cleanup p =
     (let p1 = log Info ''Service no longer accepting traffic'' p;
          p2 = p1\<lparr>st := (st p1)\<lparr>shutdown := True\<rparr>\<rparr>;
          p3 = log Info ''Cleaning up...'' p2;
          p4 = did ClearInterval (p3\<lparr>probeId := None\<rparr>);
          p5 = did (CloseCall Queue) (p4\<lparr>closing := closing p4 @ [Queue]\<rparr>)
      in setTimeout ForcedExit 10000 p5)"

text \<open>
  The three nested callbacks of lines 160 to 166, one per connection whose \<^verbatim>\<open>close\<close>
  has completed.
\<close>

fun close_callback :: "dep \<Rightarrow> process \<Rightarrow> process" where
  "close_callback Queue p = did (CloseCall Email) (p\<lparr>closing := closing p @ [Email]\<rparr>)"
| "close_callback Email p = did (CloseCall Data) (p\<lparr>closing := closing p @ [Data]\<rparr>)"
| "close_callback Data p = process_exit p"

subsection \<open>initializeConnections, checkConnections, mountServices\<close>

definition mountServices :: "process \<Rightarrow> process" where
  "mountServices p = log Verbose ''Listener workers attached'' (did MountServices p)"

definition show_bool :: "bool \<Rightarrow> string" where
  "show_bool b = (if b then ''true'' else ''false'')"

text \<open>
  The synchronous part of \<^verbatim>\<open>initializeConnections\<close>. \<open>thrown\<close> says that building the task
  list threw, which the \<^verbatim>\<open>catch\<close> block of line 205 handles; otherwise the batch is in
  flight. Either way the interval is started.
\<close>

definition initializeConnections :: "bool \<Rightarrow> process \<Rightarrow> process" where
  "initializeConnections thrown p =
     (let p1 =
        (if thrown then
           (let q = log Error ''Connection initialization failure'' p
            in if \<not> ready (st q) then shutdown_fn (q\<lparr>exitCode := Some 1\<rparr>) else q)
         else p\<lparr>init_pending := True\<rparr>)
      in p1\<lparr>probeId := Some (now p1 + 10000)\<rparr>)"

text \<open>
  The reactions of the start-up batch (lines 190 to 204): \<^verbatim>\<open>then\<close> on the results, or
  \<^verbatim>\<open>catch\<close> on a rejection with its message, and \<^verbatim>\<open>finally\<close> in both cases. The third
  result is there only when the e-mail check was pushed. The three reactions run in
  consecutive microtasks; the only reaction of this module that can run between them is
  the \<^verbatim>\<open>then\<close> of a periodic batch, and running it there or right after \<^verbatim>\<open>finally\<close> ends in
  the same state, so the three are one step here.
\<close>

definition init_then :: "bool \<Rightarrow> bool \<Rightarrow> bool option \<Rightarrow> process \<Rightarrow> process" where
  "init_then r0 r1 r2 p =
     (let c1 = (connections (st p))\<lparr>data := r0, queue := r1\<rparr>;
          c2 = (case r2 of None \<Rightarrow> c1 | Some r \<Rightarrow> c1\<lparr>email := r\<rparr>)
      in p\<lparr>st := (st p)\<lparr>connections := c2\<rparr>\<rparr>)"

definition init_finally :: "process \<Rightarrow> process" where
  "init_finally p =
     (let c = connections (st p);
          p1 = log Info (''Connection Statuses: Database = '' @ show_bool (data c)
                 @ '', Queue = '' @ show_bool (queue c)
                 @ '', Email = '' @ show_bool (email c)) p;
          p2 = p1\<lparr>st := (st p1)\<lparr>ready := every (object_values (connections (st p1)))\<rparr>\<rparr>
      in mountServices p2)"

definition checkConnections :: "process \<Rightarrow> process" where
  "checkConnections p =
     (let wasMounted = mounted (st p)
      in if \<not> shutdown (st p)
         then did ProbeBatch (p\<lparr>inflight := inflight p @ [wasMounted]\<rparr>)
         else p)"

text \<open>The \<^verbatim>\<open>then\<close> callback of a periodic batch (lines 230 to 241).\<close>

definition probe_then :: "bool \<Rightarrow> bool \<Rightarrow> bool \<Rightarrow> process \<Rightarrow> process" where
  "probe_then wasMounted r0 r1 p =
     (let p1 = p\<lparr>st := (st p)\<lparr>connections := (connections (st p))\<lparr>data := r0, queue := r1\<rparr>\<rparr>\<rparr>;
          p2 = p1\<lparr>st := (st p1)\<lparr>ready := every (object_values (connections (st p1)))\<rparr>\<rparr>;
          p3 = p2\<lparr>st := (st p2)\<lparr>mounted := r1\<rparr>\<rparr>;
          p4 = (if \<not> wasMounted \<and> mounted (st p3) \<and> ready (st p3)
                then log Info ''Service ready to accept traffic'' p3 else p3);
          p5 = log Verbose ''State'' p4
      in if \<not> ready (st p5) then shutdown_fn (p5\<lparr>exitCode := Some 1\<rparr>) else p5)"

subsection \<open>Loading the module\<close>

definition fresh :: "node_env \<Rightarrow> process" where
  "fresh e =
     \<lparr>st = initial_state, probeId = None, exitCode = None, now = 0, timers = [],
      init_pending = False, inflight = [], closing = [], exited = None, env = e,
      history = [], logs = []\<rparr>"

text \<open>Lines 56 to 62: nothing is initialised when the tests run.\<close>

definition boot :: "node_env \<Rightarrow> bool \<Rightarrow> process" where
  "boot e thrown = (if e \<noteq> Test then initializeConnections thrown (fresh e) else fresh e)"

subsection \<open>The event loop\<close>

text \<open>
  An event is enabled or not; \<open>step\<close> is \<open>None\<close> when it is not, and always once the
  process has exited.
  \<^item> \<open>Signal\<close>: one of the four signals of lines 129 to 132.
  \<^item> \<open>Elapse d\<close>: \<open>d\<close> milliseconds pass. A timer runs when it is due, so time does not
    pass beyond the due time of a pending timer or of the interval.
  \<^item> \<open>Timeout cb\<close>: a pending timer with callback \<open>cb\<close> is due and runs.
  \<^item> \<open>Tick\<close>: the interval is due, is armed again and runs \<^verbatim>\<open>checkConnections\<close>.
  \<^item> \<open>InitResolved r0 r1 r2\<close>, \<open>InitRejected msg\<close>: the start-up batch settles; \<open>r2\<close> is
    there exactly in production, where the e-mail check is part of the batch, and \<open>msg\<close> is
    the message of the rejection.
  \<^item> \<open>ProbeResolved w r0 r1\<close>, \<open>ProbeRejected w\<close>: a periodic batch in flight, whose closure
    captured \<open>wasMounted = w\<close>, settles. A rejected batch has no reaction in this module
    (line 122 logs it).
  \<^item> \<open>Closed d\<close>: a pending \<^verbatim>\<open>close\<close> of connection \<open>d\<close> completes and calls back.
\<close>

datatype event =
    Signal
  | Elapse nat
  | Timeout callback
  | Tick
  | InitResolved bool bool "bool option"
  | InitRejected string
  | ProbeResolved bool bool bool
  | ProbeRejected bool
  | Closed dep

definition may_elapse :: "nat \<Rightarrow> process \<Rightarrow> bool" where
  "may_elapse d p =
     (list_all (\<lambda>t. now p + d \<le> fst t) (timers p)
      \<and> (case probeId p of None \<Rightarrow> True | Some t \<Rightarrow> now p + d \<le> t))"

fun run_callback :: "callback \<Rightarrow> process \<Rightarrow> process" where
  "run_callback Cleanup p = cleanup p"
| "run_callback ForcedExit p = process_exit p"

fun react :: "event \<Rightarrow> process \<Rightarrow> process option" where
  "react Signal p = Some (shutdown_fn p)"
| "react (Elapse d) p = (if may_elapse d p then Some (p\<lparr>now := now p + d\<rparr>) else None)"
| "react (Timeout cb) p =
     (if (now p, cb) \<in> set (timers p)
      then Some (run_callback cb (p\<lparr>timers := remove1 (now p, cb) (timers p)\<rparr>))
      else None)"
| "react Tick p =
     (if probeId p = Some (now p)
      then Some (checkConnections (p\<lparr>probeId := Some (now p + 10000)\<rparr>))
      else None)"
| "react (InitResolved r0 r1 r2) p =
     (if init_pending p \<and> ((r2 \<noteq> None) = (env p = Production))
      then Some (init_finally (init_then r0 r1 r2 (p\<lparr>init_pending := False\<rparr>)))
      else None)"
| "react (InitRejected msg) p =
     (if init_pending p
      then Some (init_finally (log Error msg (p\<lparr>init_pending := False\<rparr>)))
      else None)"
| "react (ProbeResolved w r0 r1) p =
     (if w \<in> set (inflight p)
      then Some (probe_then w r0 r1 (p\<lparr>inflight := remove1 w (inflight p)\<rparr>))
      else None)"
| "react (ProbeRejected w) p =
     (if w \<in> set (inflight p) then Some (p\<lparr>inflight := remove1 w (inflight p)\<rparr>) else None)"
| "react (Closed d) p =
     (if d \<in> set (closing p)
      then Some (close_callback d (did (CloseDone d) (p\<lparr>closing := remove1 d (closing p)\<rparr>)))
      else None)"

definition step :: "process \<Rightarrow> event \<Rightarrow> process option" where
  "step p e = (if exited p = None then react e p else None)"

fun run :: "process \<Rightarrow> event list \<Rightarrow> process option" where
  "run p [] = Some p"
| "run p (e # es) = (case step p e of None \<Rightarrow> None | Some p' \<Rightarrow> run p' es)"

section \<open>Notions used in the statements\<close>

text \<open>
  The events that update the health model: the start-up batch settling, either way, and a
  periodic batch completing with results.
\<close>

definition is_update :: "event \<Rightarrow> bool" where
  "is_update e = (case e of InitResolved r0 r1 r2 \<Rightarrow> True | InitRejected msg \<Rightarrow> True
      | ProbeResolved w r0 r1 \<Rightarrow> True | _ \<Rightarrow> False)"

definition is_probe_result :: "event \<Rightarrow> bool" where
  "is_probe_result e = (case e of ProbeResolved w r0 r1 \<Rightarrow> True | _ \<Rightarrow> False)"

text \<open>
  Two readings of a history, which is kept most recent first: every \<open>a\<close> in it was done
  directly after \<open>b\<close>, with nothing in between; and every \<open>a\<close> in it has some \<open>b\<close> before
  it.
\<close>

fun right_after :: "action \<Rightarrow> action \<Rightarrow> action list \<Rightarrow> bool" where
  "right_after a b [] = True"
| "right_after a b (x # h) =
     ((x = a \<longrightarrow> (case h of [] \<Rightarrow> False | y # _ \<Rightarrow> y = b)) \<and> right_after a b h)"

fun after_some :: "action \<Rightarrow> action \<Rightarrow> action list \<Rightarrow> bool" where
  "after_some a b [] = True"
| "after_some a b (x # h) = ((x = a \<longrightarrow> b \<in> set h) \<and> after_some a b h)"

text \<open>
  What every step keeps true of the close chain: the three readings the statement is
  about, that a pending \<^verbatim>\<open>close\<close> is one that was called, and that the completion of the
  data store's \<^verbatim>\<open>close\<close> is followed by the exit and by nothing else.
\<close>

definition chain_inv :: "process \<Rightarrow> bool" where
  "chain_inv p =
     (right_after (CloseCall Queue) ClearInterval (history p)
    \<and> right_after (CloseCall Email) (CloseDone Queue) (history p)
    \<and> right_after (CloseCall Data) (CloseDone Email) (history p)
    \<and> (\<forall>d. after_some (CloseDone d) (CloseCall d) (history p))
    \<and> (\<forall>d. d \<in> set (closing p) \<longrightarrow> CloseCall d \<in> set (history p))
    \<and> (exited p = None \<longrightarrow> CloseDone Data \<notin> set (history p))
    \<and> (CloseDone Data \<in> set (history p) \<longrightarrow>
         (\<exists>h. history p =
            ProcessExit (case exitCode p of None \<Rightarrow> 0 | Some c \<Rightarrow> c) # CloseDone Data # h)))"

text \<open>
  What every step keeps true once a forced exit is due at time \<open>T\<close>: the clock has not
  passed \<open>T\<close>, and the timer is pending for as long as the process lives.
\<close>

definition ceiling_inv :: "nat \<Rightarrow> process \<Rightarrow> bool" where
  "ceiling_inv T p = (now p \<le> T \<and> (exited p = None \<longrightarrow> (T, ForcedExit) \<in> set (timers p)))"

section \<open>What each reaction does to each part of the process\<close>

lemma log_simps [simp]:
  "st (log l m p) = st p" "probeId (log l m p) = probeId p" "exitCode (log l m p) = exitCode p"
  "now (log l m p) = now p" "timers (log l m p) = timers p"
  "init_pending (log l m p) = init_pending p" "inflight (log l m p) = inflight p"
  "closing (log l m p) = closing p" "exited (log l m p) = exited p" "env (log l m p) = env p"
  "history (log l m p) = history p" "logs (log l m p) = (l, m) # logs p"
  by (simp_all add: log_def)

lemma did_simps [simp]:
  "st (did a p) = st p" "probeId (did a p) = probeId p" "exitCode (did a p) = exitCode p"
  "now (did a p) = now p" "timers (did a p) = timers p"
  "init_pending (did a p) = init_pending p" "inflight (did a p) = inflight p"
  "closing (did a p) = closing p" "exited (did a p) = exited p" "env (did a p) = env p"
  "history (did a p) = a # history p" "logs (did a p) = logs p"
  by (simp_all add: did_def)

lemma setTimeout_simps [simp]:
  "st (setTimeout cb ms p) = st p" "probeId (setTimeout cb ms p) = probeId p"
  "exitCode (setTimeout cb ms p) = exitCode p" "now (setTimeout cb ms p) = now p"
  "timers (setTimeout cb ms p) = timers p @ [(now p + ms, cb)]"
  "init_pending (setTimeout cb ms p) = init_pending p"
  "inflight (setTimeout cb ms p) = inflight p" "closing (setTimeout cb ms p) = closing p"
  "exited (setTimeout cb ms p) = exited p" "env (setTimeout cb ms p) = env p"
  "history (setTimeout cb ms p) = history p" "logs (setTimeout cb ms p) = logs p"
  by (simp_all add: setTimeout_def)

lemma process_exit_simps [simp]:
  "st (process_exit p) = st p" "probeId (process_exit p) = probeId p"
  "exitCode (process_exit p) = exitCode p" "now (process_exit p) = now p"
  "timers (process_exit p) = timers p" "init_pending (process_exit p) = init_pending p"
  "inflight (process_exit p) = inflight p" "closing (process_exit p) = closing p"
  "exited (process_exit p) = Some (case exitCode p of None \<Rightarrow> 0 | Some c \<Rightarrow> c)"
  "env (process_exit p) = env p"
  "history (process_exit p) = ProcessExit (case exitCode p of None \<Rightarrow> 0 | Some c \<Rightarrow> c) # history p"
  "logs (process_exit p) = (Info, ''Exiting...'') # logs p"
  by (simp_all add: process_exit_def Let_def)

lemma shutdown_fn_simps [simp]:
  "st (shutdown_fn p) = st p" "probeId (shutdown_fn p) = probeId p"
  "exitCode (shutdown_fn p) = exitCode p" "now (shutdown_fn p) = now p"
  "timers (shutdown_fn p) =
     (if shutdown (st p) then timers p else timers p @ [(now p + 5000, Cleanup)])"
  "init_pending (shutdown_fn p) = init_pending p" "inflight (shutdown_fn p) = inflight p"
  "closing (shutdown_fn p) = closing p" "exited (shutdown_fn p) = exited p"
  "env (shutdown_fn p) = env p" "history (shutdown_fn p) = QueuePause # history p"
  "logs (shutdown_fn p) = (Info, ''Received kill signal. Shutting down...'') # logs p"
  by (simp_all add: shutdown_fn_def Let_def)

lemma cleanup_simps [simp]:
  "st (cleanup p) = (st p)\<lparr>shutdown := True\<rparr>" "probeId (cleanup p) = None"
  "exitCode (cleanup p) = exitCode p" "now (cleanup p) = now p"
  "timers (cleanup p) = timers p @ [(now p + 10000, ForcedExit)]"
  "init_pending (cleanup p) = init_pending p" "inflight (cleanup p) = inflight p"
  "closing (cleanup p) = closing p @ [Queue]" "exited (cleanup p) = exited p"
  "env (cleanup p) = env p"
  "history (cleanup p) = CloseCall Queue # ClearInterval # history p"
  "logs (cleanup p) = (Info, ''Cleaning up...'') # (Info, ''Service no longer accepting traffic'') # logs p"
  by (simp_all add: cleanup_def Let_def)

lemma close_callback_simps [simp]:
  "st (close_callback d p) = st p" "probeId (close_callback d p) = probeId p"
  "exitCode (close_callback d p) = exitCode p" "now (close_callback d p) = now p"
  "timers (close_callback d p) = timers p" "init_pending (close_callback d p) = init_pending p"
  "inflight (close_callback d p) = inflight p" "env (close_callback d p) = env p"
  by (cases d; simp)+

lemma close_callback_more [simp]:
  "closing (close_callback d p) =
     (case d of Queue \<Rightarrow> closing p @ [Email] | Email \<Rightarrow> closing p @ [Data]
      | Data \<Rightarrow> closing p)"
  "exited (close_callback d p) =
     (case d of Data \<Rightarrow> Some (case exitCode p of None \<Rightarrow> 0 | Some c \<Rightarrow> c)
      | _ \<Rightarrow> exited p)"
  "history (close_callback d p) =
     (case d of Queue \<Rightarrow> CloseCall Email # history p
      | Email \<Rightarrow> CloseCall Data # history p
      | Data \<Rightarrow> ProcessExit (case exitCode p of None \<Rightarrow> 0 | Some c \<Rightarrow> c) # history p)"
  by (cases d; simp)+

lemma mountServices_simps [simp]:
  "st (mountServices p) = st p" "probeId (mountServices p) = probeId p"
  "exitCode (mountServices p) = exitCode p" "now (mountServices p) = now p"
  "timers (mountServices p) = timers p" "init_pending (mountServices p) = init_pending p"
  "inflight (mountServices p) = inflight p" "closing (mountServices p) = closing p"
  "exited (mountServices p) = exited p" "env (mountServices p) = env p"
  "history (mountServices p) = MountServices # history p"
  "logs (mountServices p) = (Verbose, ''Listener workers attached'') # logs p"
  by (simp_all add: mountServices_def)

lemma init_then_simps [simp]:
  "st (init_then r0 r1 r2 p) =
     (st p)\<lparr>connections := \<lparr>data = r0,
        email = (case r2 of None \<Rightarrow> email (connections (st p)) | Some r \<Rightarrow> r), queue = r1\<rparr>\<rparr>"
  "probeId (init_then r0 r1 r2 p) = probeId p" "exitCode (init_then r0 r1 r2 p) = exitCode p"
  "now (init_then r0 r1 r2 p) = now p" "timers (init_then r0 r1 r2 p) = timers p"
  "init_pending (init_then r0 r1 r2 p) = init_pending p"
  "inflight (init_then r0 r1 r2 p) = inflight p" "closing (init_then r0 r1 r2 p) = closing p"
  "exited (init_then r0 r1 r2 p) = exited p" "env (init_then r0 r1 r2 p) = env p"
  "history (init_then r0 r1 r2 p) = history p" "logs (init_then r0 r1 r2 p) = logs p"
  by (simp_all add: init_then_def Let_def split: option.splits)

lemma init_finally_simps [simp]:
  "st (init_finally p) =
     (st p)\<lparr>ready := (data (connections (st p)) \<and> email (connections (st p))
                       \<and> queue (connections (st p)))\<rparr>"
  "probeId (init_finally p) = probeId p" "exitCode (init_finally p) = exitCode p"
  "now (init_finally p) = now p" "timers (init_finally p) = timers p"
  "init_pending (init_finally p) = init_pending p" "inflight (init_finally p) = inflight p"
  "closing (init_finally p) = closing p" "exited (init_finally p) = exited p"
  "env (init_finally p) = env p" "history (init_finally p) = MountServices # history p"
  by (simp_all add: init_finally_def Let_def every_def object_values_def)

lemma checkConnections_simps [simp]:
  "st (checkConnections p) = st p" "probeId (checkConnections p) = probeId p"
  "exitCode (checkConnections p) = exitCode p" "now (checkConnections p) = now p"
  "timers (checkConnections p) = timers p"
  "init_pending (checkConnections p) = init_pending p"
  "inflight (checkConnections p) =
     (if shutdown (st p) then inflight p else inflight p @ [mounted (st p)])"
  "closing (checkConnections p) = closing p" "exited (checkConnections p) = exited p"
  "env (checkConnections p) = env p"
  "history (checkConnections p) =
     (if shutdown (st p) then history p else ProbeBatch # history p)"
  "logs (checkConnections p) = logs p"
  by (simp_all add: checkConnections_def Let_def)

lemma probe_then_simps [simp]:
  "st (probe_then w r0 r1 p) =
     (st p)\<lparr>connections := (connections (st p))\<lparr>data := r0, queue := r1\<rparr>,
             ready := (r0 \<and> email (connections (st p)) \<and> r1), mounted := r1\<rparr>"
  "probeId (probe_then w r0 r1 p) = probeId p"
  "exitCode (probe_then w r0 r1 p) =
     (if r0 \<and> email (connections (st p)) \<and> r1 then exitCode p else Some 1)"
  "now (probe_then w r0 r1 p) = now p"
  "timers (probe_then w r0 r1 p) =
     (if (r0 \<and> email (connections (st p)) \<and> r1) \<or> shutdown (st p) then timers p
      else timers p @ [(now p + 5000, Cleanup)])"
  "init_pending (probe_then w r0 r1 p) = init_pending p"
  "inflight (probe_then w r0 r1 p) = inflight p" "closing (probe_then w r0 r1 p) = closing p"
  "exited (probe_then w r0 r1 p) = exited p" "env (probe_then w r0 r1 p) = env p"
  "history (probe_then w r0 r1 p) =
     (if r0 \<and> email (connections (st p)) \<and> r1 then history p else QueuePause # history p)"
  by (auto simp: probe_then_def Let_def every_def object_values_def)

lemma run_callback_simps [simp]:
  "probeId (run_callback cb p) = (case cb of Cleanup \<Rightarrow> None | ForcedExit \<Rightarrow> probeId p)"
  "exitCode (run_callback cb p) = exitCode p" "now (run_callback cb p) = now p"
  "init_pending (run_callback cb p) = init_pending p" "inflight (run_callback cb p) = inflight p"
  "env (run_callback cb p) = env p"
  "connections (st (run_callback cb p)) = connections (st p)"
  "ready (st (run_callback cb p)) = ready (st p)"
  "mounted (st (run_callback cb p)) = mounted (st p)"
  by (cases cb; simp)+

lemma run_callback_more [simp]:
  "shutdown (st (run_callback cb p)) = (cb = Cleanup \<or> shutdown (st p))"
  "timers (run_callback cb p) =
     (case cb of Cleanup \<Rightarrow> timers p @ [(now p + 10000, ForcedExit)]
      | ForcedExit \<Rightarrow> timers p)"
  "closing (run_callback cb p) =
     (case cb of Cleanup \<Rightarrow> closing p @ [Queue] | ForcedExit \<Rightarrow> closing p)"
  "exited (run_callback cb p) =
     (case cb of Cleanup \<Rightarrow> exited p
      | ForcedExit \<Rightarrow> Some (case exitCode p of None \<Rightarrow> 0 | Some c \<Rightarrow> c))"
  "history (run_callback cb p) =
     (case cb of Cleanup \<Rightarrow> CloseCall Queue # ClearInterval # history p
      | ForcedExit \<Rightarrow> ProcessExit (case exitCode p of None \<Rightarrow> 0 | Some c \<Rightarrow> c) # history p)"
  by (cases cb; simp)+

section \<open>Executions\<close>

lemma run_append: "run p (es @ fs) = (case run p es of None \<Rightarrow> None | Some q \<Rightarrow> run q fs)"
  by (induction es arbitrary: p) (auto split: option.splits)

lemma run_invariant:
  assumes "run p es = Some q" and "I p"
    and "\<And>a e b. I a \<Longrightarrow> step a e = Some b \<Longrightarrow> I b"
  shows "I q"
  using assms(1,2)
proof (induction es arbitrary: p)
  case Nil
  then show ?case by simp
next
  case (Cons e es)
  then show ?case using assms(3) by (auto split: option.splits)
qed

lemma in_remove1D: "x \<in> set (remove1 y xs) \<Longrightarrow> x \<in> set xs"
  by (meson notin_set_remove1)

text \<open>The definitions a concrete execution is evaluated with.\<close>

lemmas boot_defs = boot_def fresh_def initial_state_def initializeConnections_def

lemmas eval_defs = boot_defs step_def may_elapse_def

section \<open>The gate\<close>

text \<open>
  Claim C1. For every state and every request the middleware decides in this order: with
  the shutdown flag set it sends a 503 problem whose detail is "Server is shutting down";
  otherwise, when ready or mounted is false, it sends a 503 problem whose detail is
  "Server is not ready"; otherwise it hands the request, as it came, to the next handler.
\<close>

theorem gate_order:
  "(shutdown s \<longrightarrow> gate s req = Send (Problem 503 ''Server is shutting down''))
 \<and> (\<not> shutdown s \<and> (\<not> ready s \<or> \<not> mounted s)
      \<longrightarrow> gate s req = Send (Problem 503 ''Server is not ready''))
 \<and> (\<not> shutdown s \<and> ready s \<and> mounted s \<longrightarrow> gate s req = Next req)"
  by (simp add: gate_def)

theorem gate_order_witness:
  "gate (initial_state\<lparr>ready := True, mounted := True, shutdown := True\<rparr>) ''GET /api/v1''
     = Send (Problem 503 ''Server is shutting down'')
 \<and> gate (initial_state\<lparr>ready := True\<rparr>) ''GET /api/v1''
     = Send (Problem 503 ''Server is not ready'')
 \<and> gate (initial_state\<lparr>ready := True, mounted := True\<rparr>) ''GET /api/v1''
     = Next ''GET /api/v1''"
  using
    gate_order [of "initial_state\<lparr>ready := True, mounted := True, shutdown := True\<rparr>"
      "''GET /api/v1''"]
    gate_order [of "initial_state\<lparr>ready := True\<rparr>" "''GET /api/v1''"]
    gate_order [of "initial_state\<lparr>ready := True, mounted := True\<rparr>" "''GET /api/v1''"]
  by (simp add: initial_state_def)

section \<open>The ready flag\<close>

lemma ready_step:
  assumes "step p ev = Some p'"
  shows "(is_update ev \<longrightarrow>
            ready (st p') = (data (connections (st p')) \<and> email (connections (st p'))
                             \<and> queue (connections (st p'))))
       \<and> (\<not> is_update ev \<longrightarrow>
            ready (st p') = ready (st p) \<and> connections (st p') = connections (st p))"
  using assms
  by (cases ev) (auto simp: step_def is_update_def split: if_splits)

lemma ready_boot:
  "ready (st (boot e thrown)) =
     (data (connections (st (boot e thrown))) \<and> email (connections (st (boot e thrown)))
      \<and> queue (connections (st (boot e thrown))))"
  by (simp add: boot_defs Let_def)

lemma ready_reachable:
  assumes "run (boot e thrown) es = Some p"
  shows "ready (st p) =
     (data (connections (st p)) \<and> email (connections (st p)) \<and> queue (connections (st p)))"
proof (rule run_invariant [OF assms, where I = "\<lambda>p. ready (st p) =
     (data (connections (st p)) \<and> email (connections (st p)) \<and> queue (connections (st p)))"])
  show "ready (st (boot e thrown)) =
     (data (connections (st (boot e thrown))) \<and> email (connections (st (boot e thrown)))
      \<and> queue (connections (st (boot e thrown))))"
    by (rule ready_boot)
next
  fix a ev b
  assume inv: "ready (st a) =
      (data (connections (st a)) \<and> email (connections (st a)) \<and> queue (connections (st a)))"
    and s: "step a ev = Some b"
  show "ready (st b) =
      (data (connections (st b)) \<and> email (connections (st b)) \<and> queue (connections (st b)))"
    using ready_step [OF s] inv by (cases "is_update ev") simp_all
qed

text \<open>
  Claim C2. In every execution, after every step the ready flag is the conjunction of the
  three entries of the connections record, in particular after the start-up batch settled
  and after each periodic batch completed; and a step that is not one of these updates
  leaves both the ready flag and the connections record as they were, so ready is never
  assigned in any other way.
\<close>

theorem ready_is_conjunction:
  assumes "run (boot e thrown) es = Some p" and "step p ev = Some p'"
  shows "ready (st p') =
           (data (connections (st p')) \<and> email (connections (st p'))
            \<and> queue (connections (st p')))
       \<and> (\<not> is_update ev \<longrightarrow>
            ready (st p') = ready (st p) \<and> connections (st p') = connections (st p))"
proof -
  have "run (boot e thrown) (es @ [ev]) = Some p'"
    using assms by (simp add: run_append)
  then show ?thesis using ready_reachable ready_step [OF assms(2)] by blast
qed

theorem ready_is_conjunction_witness:
  "map_option st (run (boot Production False)
      [InitResolved True True (Some True), Elapse 10000, Tick, ProbeResolved False False True])
     = Some \<lparr>connections = \<lparr>data = False, email = True, queue = True\<rparr>,
             mounted = True, ready = False, shutdown = False\<rparr>"
proof -
  define p where "p = the (run (boot Production False)
      [InitResolved True True (Some True), Elapse 10000, Tick])"
  define p' where "p' = the (step p (ProbeResolved False False True))"
  have 1: "run (boot Production False)
      [InitResolved True True (Some True), Elapse 10000, Tick] = Some p"
    unfolding p_def by (simp add: eval_defs Let_def)
  have 2: "step p (ProbeResolved False False True) = Some p'"
    unfolding p'_def p_def by (simp add: eval_defs Let_def)
  have 3: "run (boot Production False)
      ([InitResolved True True (Some True), Elapse 10000, Tick]
       @ [ProbeResolved False False True]) = Some p'"
    using 1 2 by (simp only: run_append option.case run.simps)
  have "connections (st p') = \<lparr>data = False, email = True, queue = True\<rparr>
      \<and> mounted (st p') \<and> \<not> shutdown (st p')"
    unfolding p'_def p_def by (simp add: eval_defs Let_def)
  with ready_is_conjunction [OF 1 2] 3 show ?thesis
    by (cases "st p'") auto
qed

section \<open>Shutdown\<close>

text \<open>
  Claim C3, on an execution the code can have. Two termination signals arrive while the
  shutdown flag is still false, here in the same millisecond. The guard of line 146 reads
  a flag that only \<^verbatim>\<open>cleanup\<close> sets, five seconds later, so both calls schedule \<^verbatim>\<open>cleanup\<close>,
  both timers run, and the history shows the interval cleared twice and the queue's
  \<^verbatim>\<open>close\<close> called twice: the close sequence is started twice, not once.
\<close>

theorem two_signals_two_cleanups:
  "map_option history
     (run (boot Production False)
        [InitResolved True True (Some True), Signal, Signal, Elapse 5000,
         Timeout Cleanup, Timeout Cleanup])
   = Some [CloseCall Queue, ClearInterval, CloseCall Queue, ClearInterval,
           QueuePause, QueuePause, MountServices]"
  by (simp add: eval_defs Let_def)

subsection \<open>The close chain\<close>

lemma chain_boot: "chain_inv (boot e thrown)"
  by (simp add: chain_inv_def boot_defs Let_def)

lemma chain_step:
  assumes "step p ev = Some p'" and "chain_inv p"
  shows "chain_inv p'"
proof (cases ev)
  case (Timeout cb)
  then show ?thesis using assms
    by (cases cb) (auto simp: step_def chain_inv_def split: if_splits)
next
  case (Closed d)
  then show ?thesis using assms
    by (cases d) (auto simp: step_def chain_inv_def split: if_splits dest!: in_remove1D)
qed (use assms in \<open>auto simp: step_def chain_inv_def split: if_splits\<close>)

text \<open>
  Claim C4. In every execution: the queue's \<^verbatim>\<open>close\<close> is called by \<^verbatim>\<open>cleanup\<close>, directly after
  it cleared the interval; the mail transport's \<^verbatim>\<open>close\<close> is called only directly after a
  completion callback of the queue's \<^verbatim>\<open>close\<close>, and the data store's only directly after a
  completion callback of the mail transport's; a completion callback belongs to a \<^verbatim>\<open>close\<close>
  called before it; and once the data store's \<^verbatim>\<open>close\<close> has completed the next thing done
  is the exit, with the recorded exit code, and the process has exited. Conversely, from
  every state reached, \<^verbatim>\<open>cleanup\<close> clears the interval and calls the queue's \<^verbatim>\<open>close\<close>, the
  completion of the queue's \<^verbatim>\<open>close\<close> calls the mail transport's, the completion of the mail
  transport's calls the data store's, and the completion of the data store's exits.
\<close>

theorem close_chain_order:
  assumes "run (boot e thrown) es = Some p"
  shows "right_after (CloseCall Queue) ClearInterval (history p)
       \<and> right_after (CloseCall Email) (CloseDone Queue) (history p)
       \<and> right_after (CloseCall Data) (CloseDone Email) (history p)
       \<and> (\<forall>d. after_some (CloseDone d) (CloseCall d) (history p))
       \<and> (CloseDone Data \<in> set (history p) \<longrightarrow> exited p \<noteq> None \<and>
            (\<exists>h. history p =
               ProcessExit (case exitCode p of None \<Rightarrow> 0 | Some c \<Rightarrow> c) # CloseDone Data # h))
       \<and> (\<forall>q. step p (Timeout Cleanup) = Some q \<longrightarrow>
            history q = CloseCall Queue # ClearInterval # history p)
       \<and> (\<forall>q. step p (Closed Queue) = Some q \<longrightarrow>
            history q = CloseCall Email # CloseDone Queue # history p)
       \<and> (\<forall>q. step p (Closed Email) = Some q \<longrightarrow>
            history q = CloseCall Data # CloseDone Email # history p)
       \<and> (\<forall>q. step p (Closed Data) = Some q \<longrightarrow>
            exited q = Some (case exitCode p of None \<Rightarrow> 0 | Some c \<Rightarrow> c) \<and>
            history q =
              ProcessExit (case exitCode p of None \<Rightarrow> 0 | Some c \<Rightarrow> c)
                # CloseDone Data # history p)"
proof -
  have "chain_inv p"
    by (rule run_invariant [OF assms, where I = chain_inv]) (auto intro: chain_boot chain_step)
  then have past: "right_after (CloseCall Queue) ClearInterval (history p)
       \<and> right_after (CloseCall Email) (CloseDone Queue) (history p)
       \<and> right_after (CloseCall Data) (CloseDone Email) (history p)
       \<and> (\<forall>d. after_some (CloseDone d) (CloseCall d) (history p))
       \<and> (CloseDone Data \<in> set (history p) \<longrightarrow> exited p \<noteq> None \<and>
            (\<exists>h. history p =
               ProcessExit (case exitCode p of None \<Rightarrow> 0 | Some c \<Rightarrow> c) # CloseDone Data # h))"
    unfolding chain_inv_def by blast
  have "step p (Timeout Cleanup) = Some q \<Longrightarrow>
      history q = CloseCall Queue # ClearInterval # history p" for q
    by (auto simp: step_def split: if_splits)
  moreover have "step p (Closed Queue) = Some q \<Longrightarrow>
      history q = CloseCall Email # CloseDone Queue # history p" for q
    by (auto simp: step_def split: if_splits)
  moreover have "step p (Closed Email) = Some q \<Longrightarrow>
      history q = CloseCall Data # CloseDone Email # history p" for q
    by (auto simp: step_def split: if_splits)
  moreover have "step p (Closed Data) = Some q \<Longrightarrow>
      exited q = Some (case exitCode p of None \<Rightarrow> 0 | Some c \<Rightarrow> c) \<and>
      history q =
        ProcessExit (case exitCode p of None \<Rightarrow> 0 | Some c \<Rightarrow> c)
          # CloseDone Data # history p" for q
    by (auto simp: step_def split: if_splits)
  ultimately show ?thesis using past by blast
qed

theorem close_chain_order_witness:
  "\<exists>p h. run (boot Production False)
            [Signal, Elapse 5000, Timeout Cleanup, Closed Queue, Closed Email, Closed Data]
          = Some p
       \<and> history p = ProcessExit 0 # CloseDone Data # h
       \<and> exited p \<noteq> None
       \<and> right_after (CloseCall Data) (CloseDone Email) (history p)"
proof -
  define p where "p = the (run (boot Production False)
            [Signal, Elapse 5000, Timeout Cleanup, Closed Queue, Closed Email, Closed Data])"
  have 1: "run (boot Production False)
            [Signal, Elapse 5000, Timeout Cleanup, Closed Queue, Closed Email, Closed Data]
          = Some p"
    unfolding p_def by (simp add: eval_defs Let_def)
  have 2: "CloseDone Data \<in> set (history p) \<and> exitCode p = None"
    unfolding p_def by (simp add: eval_defs Let_def)
  from close_chain_order [OF 1] 2 1 show ?thesis by auto
qed

subsection \<open>The hard ceiling\<close>

lemma ceiling_step:
  assumes "step p ev = Some p'" and "ceiling_inv T p"
  shows "ceiling_inv T p'"
proof (cases ev)
  case (Elapse d)
  then show ?thesis using assms
    by (auto simp: step_def ceiling_inv_def may_elapse_def list_all_iff split: if_splits)
next
  case (Timeout cb)
  then show ?thesis using assms
    by (cases cb) (auto simp: step_def ceiling_inv_def split: if_splits)
qed (use assms in \<open>auto simp: step_def ceiling_inv_def split: if_splits dep.splits\<close>)

lemma ceiling_start:
  assumes "step p (Timeout Cleanup) = Some q"
  shows "ceiling_inv (now q + 10000) q"
  using assms by (auto simp: step_def ceiling_inv_def split: if_splits)

text \<open>
  Claim C5. Whenever \<^verbatim>\<open>cleanup\<close> runs, whatever happens afterwards, and in particular
  whichever completion callbacks of the close chain arrive or fail to arrive: the clock
  of the process never passes 10000 milliseconds after the start of \<^verbatim>\<open>cleanup\<close>; for as
  long as the process lives, the forced exit scheduled for that time is pending; and when
  that time comes with the process still alive, the timer runs and the process exits.
\<close>

theorem forced_exit_ceiling:
  assumes "step p (Timeout Cleanup) = Some q" and "run q es = Some r"
  shows "now r \<le> now q + 10000
       \<and> (exited r = None \<longrightarrow> (now q + 10000, ForcedExit) \<in> set (timers r))
       \<and> (exited r = None \<and> now r = now q + 10000
            \<longrightarrow> (\<exists>r'. step r (Timeout ForcedExit) = Some r' \<and> exited r' \<noteq> None))"
proof -
  have inv: "ceiling_inv (now q + 10000) r"
    by (rule run_invariant [OF assms(2), where I = "ceiling_inv (now q + 10000)"])
       (auto intro: ceiling_start [OF assms(1)] ceiling_step)
  then show ?thesis
    by (auto simp: ceiling_inv_def step_def)
qed

theorem forced_exit_ceiling_witness:
  "\<exists>r'. run (boot Production False)
           [Signal, Elapse 5000, Timeout Cleanup, Elapse 10000, Timeout ForcedExit] = Some r'
      \<and> exited r' \<noteq> None \<and> closing r' = [Queue] \<and> now r' = 15000"
proof -
  define p where "p = the (run (boot Production False) [Signal, Elapse 5000])"
  define q where "q = the (step p (Timeout Cleanup))"
  define r where "r = the (run q [Elapse 10000])"
  have 1: "run (boot Production False) [Signal, Elapse 5000] = Some p"
    unfolding p_def by (simp add: eval_defs Let_def)
  have 2: "step p (Timeout Cleanup) = Some q"
    unfolding q_def p_def by (simp add: eval_defs Let_def)
  have 3: "run q [Elapse 10000] = Some r"
    unfolding r_def q_def p_def by (simp add: eval_defs Let_def)
  have 4: "exited r = None \<and> now r = now q + 10000 \<and> now q = 5000 \<and> closing r = [Queue]"
    unfolding r_def q_def p_def by (simp add: eval_defs Let_def)
  from forced_exit_ceiling [OF 2 3] 4
  obtain r' where 5: "step r (Timeout ForcedExit) = Some r'" and 6: "exited r' \<noteq> None"
    by blast
  have 7: "closing r' = closing r \<and> now r' = now r"
    using 5 by (auto simp: step_def split: if_splits)
  have "run (boot Production False)
          ([Signal, Elapse 5000] @ [Timeout Cleanup] @ [Elapse 10000] @ [Timeout ForcedExit])
        = Some r'"
    unfolding run_append using 1 2 3 5 by (simp split: option.splits)
  with 4 6 7 show ?thesis by auto
qed

subsection \<open>The shutdown flag\<close>

lemma shutdown_step:
  assumes "step p ev = Some p'" and "shutdown (st p)"
  shows "shutdown (st p')"
  using assms by (cases ev) (auto simp: step_def split: if_splits)

text \<open>
  Claim C6. Once the shutdown flag is true it is true after every further execution, and
  the gate answers every request with the 503 problem "Server is shutting down".
\<close>

theorem shutdown_permanent:
  assumes "shutdown (st p)" and "run p es = Some p'"
  shows "shutdown (st p') \<and> gate (st p') req = Send (Problem 503 ''Server is shutting down'')"
proof -
  have "shutdown (st p')"
    by (rule run_invariant [OF assms(2), where I = "\<lambda>a. shutdown (st a)"])
       (auto intro: assms(1) shutdown_step)
  then show ?thesis by (simp add: gate_def)
qed

theorem shutdown_permanent_witness:
  "map_option (\<lambda>p. (ready (st p), mounted (st p), gate (st p) ''GET /api/v1''))
     (run (boot Production False)
        [InitResolved True True (Some True), Elapse 10000, Tick, ProbeResolved False True True,
         Signal, Elapse 5000, Timeout Cleanup, Closed Queue, Closed Email])
   = Some (True, True, Send (Problem 503 ''Server is shutting down''))"
proof -
  define p where "p = the (run (boot Production False)
        [InitResolved True True (Some True), Elapse 10000, Tick, ProbeResolved False True True,
         Signal, Elapse 5000, Timeout Cleanup])"
  define p' where "p' = the (run p [Closed Queue, Closed Email])"
  have 1: "run (boot Production False)
        [InitResolved True True (Some True), Elapse 10000, Tick, ProbeResolved False True True,
         Signal, Elapse 5000, Timeout Cleanup] = Some p"
    unfolding p_def by (simp add: eval_defs Let_def)
  have 2: "run p [Closed Queue, Closed Email] = Some p'"
    unfolding p'_def p_def by (simp add: eval_defs Let_def)
  have 3: "shutdown (st p)"
    unfolding p_def by (simp add: eval_defs Let_def)
  have 4: "ready (st p') \<and> mounted (st p')"
    unfolding p'_def p_def by (simp add: eval_defs Let_def)
  have "run (boot Production False)
        ([InitResolved True True (Some True), Elapse 10000, Tick, ProbeResolved False True True,
         Signal, Elapse 5000, Timeout Cleanup] @ [Closed Queue, Closed Email]) = Some p'"
    using 1 2 by (simp only: run_append option.case)
  with shutdown_permanent [OF 3 2, of "''GET /api/v1''"] 4 show ?thesis by simp
qed

section \<open>The mounted flag and the periodic batches\<close>

text \<open>
  The mounted flag over three periodic batches, the second of which takes ten seconds
  and finds the queue unreachable: the flag is true after the first batch, false after
  the second, and true again after the third, and the shutdown flag is false all along.
\<close>

theorem mounted_not_monotonic:
  "map_option st (run (boot Production False)
      [InitResolved True True (Some True), Elapse 10000, Tick, ProbeResolved False True True])
     = Some \<lparr>connections = \<lparr>data = True, email = True, queue = True\<rparr>,
             mounted = True, ready = True, shutdown = False\<rparr>
 \<and> map_option st (run (boot Production False)
      [InitResolved True True (Some True), Elapse 10000, Tick, ProbeResolved False True True,
       Elapse 10000, Tick, Elapse 10000, Tick, ProbeResolved True True False])
     = Some \<lparr>connections = \<lparr>data = True, email = True, queue = False\<rparr>,
             mounted = False, ready = False, shutdown = False\<rparr>
 \<and> map_option st (run (boot Production False)
      [InitResolved True True (Some True), Elapse 10000, Tick, ProbeResolved False True True,
       Elapse 10000, Tick, Elapse 10000, Tick, ProbeResolved True True False,
       ProbeResolved True True True])
     = Some \<lparr>connections = \<lparr>data = True, email = True, queue = True\<rparr>,
             mounted = True, ready = True, shutdown = False\<rparr>"
  by (simp add: eval_defs Let_def)

text \<open>
  Claim C7, as amended. The mounted flag is assigned only when a periodic batch completes
  with results, and then to the queue's result of that batch; every other step leaves it
  as it was. A step that takes it from true to false leaves ready false, sets the exit
  code to 1 and calls the shutdown trigger: the queue is paused and, unless the shutdown
  flag is already true, \<^verbatim>\<open>cleanup\<close> is scheduled 5000 milliseconds later.
\<close>

theorem mounted_tracks_queue_probe:
  assumes "step p ev = Some p'"
  shows "(case ev of ProbeResolved w r0 r1 \<Rightarrow> mounted (st p') = r1
          | _ \<Rightarrow> mounted (st p') = mounted (st p))
       \<and> (mounted (st p) \<and> \<not> mounted (st p') \<longrightarrow>
            \<not> ready (st p') \<and> exitCode p' = Some 1 \<and> history p' = QueuePause # history p
            \<and> (\<not> shutdown (st p) \<longrightarrow> (now p + 5000, Cleanup) \<in> set (timers p')))"
  using assms by (cases ev) (auto simp: step_def split: if_splits)

theorem mounted_tracks_queue_probe_witness:
  "map_option (\<lambda>p. (mounted (st p), ready (st p), exitCode p, history p, timers p))
     (run (boot Production False)
        [InitResolved True True (Some True), Elapse 10000, Tick, ProbeResolved False True True,
         Elapse 10000, Tick, ProbeResolved True True False])
   = Some (False, False, Some 1, [QueuePause, ProbeBatch, ProbeBatch, MountServices],
           [(25000, Cleanup)])"
proof -
  define p where "p = the (run (boot Production False)
        [InitResolved True True (Some True), Elapse 10000, Tick, ProbeResolved False True True,
         Elapse 10000, Tick])"
  define p' where "p' = the (step p (ProbeResolved True True False))"
  have 1: "run (boot Production False)
        [InitResolved True True (Some True), Elapse 10000, Tick, ProbeResolved False True True,
         Elapse 10000, Tick] = Some p"
    unfolding p_def by (simp add: eval_defs Let_def)
  have 2: "step p (ProbeResolved True True False) = Some p'"
    unfolding p'_def p_def by (simp add: eval_defs Let_def)
  have 3: "mounted (st p) \<and> \<not> shutdown (st p) \<and> now p = 20000
         \<and> history p = [ProbeBatch, ProbeBatch, MountServices] \<and> timers p = []"
    unfolding p_def by (simp add: eval_defs Let_def)
  have 4: "timers p' = timers p @ [(now p + 5000, Cleanup)]"
    using 2 3 mounted_tracks_queue_probe [OF 2] by (auto simp: step_def split: if_splits)
  have "run (boot Production False)
        ([InitResolved True True (Some True), Elapse 10000, Tick, ProbeResolved False True True,
         Elapse 10000, Tick] @ [ProbeResolved True True False]) = Some p'"
    using 1 2 by (simp only: run_append option.case run.simps)
  with mounted_tracks_queue_probe [OF 2] 3 4 show ?thesis by simp
qed

text \<open>
  A batch started at the tick of second 10, one second before \<^verbatim>\<open>cleanup\<close> sets the shutdown
  flag, and completing after it with the data store unreachable: before the completion
  the record is all true, ready is true, mounted is false and no exit code is set;
  after it the data entry and ready are false, mounted is true, the exit code is 1 and
  the queue was paused once more.
\<close>

theorem late_probe_not_noop:
  "map_option st (run (boot Production False)
      [InitResolved True True (Some True), Elapse 6000, Signal, Elapse 4000, Tick,
       Elapse 1000, Timeout Cleanup])
     = Some \<lparr>connections = \<lparr>data = True, email = True, queue = True\<rparr>,
             mounted = False, ready = True, shutdown = True\<rparr>
 \<and> map_option exitCode (run (boot Production False)
      [InitResolved True True (Some True), Elapse 6000, Signal, Elapse 4000, Tick,
       Elapse 1000, Timeout Cleanup])
     = Some None
 \<and> map_option st (run (boot Production False)
      [InitResolved True True (Some True), Elapse 6000, Signal, Elapse 4000, Tick,
       Elapse 1000, Timeout Cleanup, ProbeResolved False False True])
     = Some \<lparr>connections = \<lparr>data = False, email = True, queue = True\<rparr>,
             mounted = True, ready = False, shutdown = True\<rparr>
 \<and> map_option exitCode (run (boot Production False)
      [InitResolved True True (Some True), Elapse 6000, Signal, Elapse 4000, Tick,
       Elapse 1000, Timeout Cleanup, ProbeResolved False False True])
     = Some (Some 1)
 \<and> map_option history (run (boot Production False)
      [InitResolved True True (Some True), Elapse 6000, Signal, Elapse 4000, Tick,
       Elapse 1000, Timeout Cleanup, ProbeResolved False False True])
     = Some [QueuePause, CloseCall Queue, ClearInterval, ProbeBatch, QueuePause,
             MountServices]"
  by (simp add: eval_defs Let_def)

text \<open>
  Claim C8, as amended. The completion callback of a periodic batch that was in flight
  when the shutdown flag became true still runs in full: it writes the batch's results
  to the data and queue entries of the connections record, recomputes ready and sets
  mounted to the queue's result. When ready is left false it sets the exit code to 1 and
  calls the shutdown trigger, which pauses the queue again. It leaves the shutdown flag
  true, schedules no timer and calls no \<^verbatim>\<open>close\<close>. Only the start of a batch is guarded:
  \<^verbatim>\<open>checkConnections\<close> starts none once the shutdown flag is true.
\<close>

theorem late_probe_still_applies:
  assumes "shutdown (st p)" and "step p (ProbeResolved w r0 r1) = Some p'"
  shows "connections (st p') = (connections (st p))\<lparr>data := r0, queue := r1\<rparr>
       \<and> ready (st p') = (r0 \<and> email (connections (st p)) \<and> r1)
       \<and> mounted (st p') = r1
       \<and> shutdown (st p')
       \<and> timers p' = timers p \<and> closing p' = closing p
       \<and> (if ready (st p') then exitCode p' = exitCode p \<and> history p' = history p
           else exitCode p' = Some 1 \<and> history p' = QueuePause # history p)
       \<and> inflight (checkConnections p) = inflight p
       \<and> history (checkConnections p) = history p"
  using assms by (auto simp: step_def split: if_splits)

theorem late_probe_still_applies_witness:
  "map_option (\<lambda>p. (st p, exitCode p, history p, timers p))
     (run (boot Production False)
        [InitResolved True True (Some True), Elapse 6000, Signal, Elapse 4000, Tick,
         Elapse 1000, Timeout Cleanup, ProbeResolved False False True])
     = Some (\<lparr>connections = \<lparr>data = False, email = True, queue = True\<rparr>,
               mounted = True, ready = False, shutdown = True\<rparr>,
             Some 1,
             [QueuePause, CloseCall Queue, ClearInterval, ProbeBatch, QueuePause, MountServices],
             [(21000, ForcedExit)])"
proof -
  define p where "p = the (run (boot Production False)
        [InitResolved True True (Some True), Elapse 6000, Signal, Elapse 4000, Tick,
         Elapse 1000, Timeout Cleanup])"
  define p' where "p' = the (step p (ProbeResolved False False True))"
  have 1: "run (boot Production False)
        [InitResolved True True (Some True), Elapse 6000, Signal, Elapse 4000, Tick,
         Elapse 1000, Timeout Cleanup] = Some p"
    unfolding p_def by (simp add: eval_defs Let_def)
  have 2: "step p (ProbeResolved False False True) = Some p'"
    unfolding p'_def p_def by (simp add: eval_defs Let_def)
  have 3: "shutdown (st p)"
    unfolding p_def by (simp add: eval_defs Let_def)
  have 4: "connections (st p) = \<lparr>data = True, email = True, queue = True\<rparr>
         \<and> history p = [CloseCall Queue, ClearInterval, ProbeBatch, QueuePause, MountServices]
         \<and> timers p = [(21000, ForcedExit)]"
    unfolding p_def by (simp add: eval_defs Let_def)
  have "run (boot Production False)
        ([InitResolved True True (Some True), Elapse 6000, Signal, Elapse 4000, Tick,
         Elapse 1000, Timeout Cleanup] @ [ProbeResolved False False True]) = Some p'"
    using 1 2 by (simp only: run_append option.case run.simps)
  with late_probe_still_applies [OF 3 2] 4 show ?thesis
    by (cases "st p'") (auto split: if_splits)
qed

text \<open>
  Claim C9. Whenever a periodic batch completes with results that leave ready false, the
  exit code is set to 1 and the shutdown trigger is called: the queue is paused and,
  unless the shutdown flag is already true, \<^verbatim>\<open>cleanup\<close> is scheduled 5000 milliseconds
  later.
\<close>

theorem failed_probe_triggers_shutdown:
  assumes "step p (ProbeResolved w r0 r1) = Some p'" and "\<not> ready (st p')"
  shows "exitCode p' = Some 1
       \<and> history p' = QueuePause # history p
       \<and> timers p' =
           (if shutdown (st p) then timers p else timers p @ [(now p + 5000, Cleanup)])"
  using assms by (auto simp: step_def split: if_splits)

theorem failed_probe_triggers_shutdown_witness:
  "map_option (\<lambda>p. (ready (st p), exitCode p, history p, timers p))
     (run (boot Production False)
        [InitResolved True True (Some True), Elapse 10000, Tick, ProbeResolved False False True])
   = Some (False, Some 1, [QueuePause, ProbeBatch, MountServices], [(15000, Cleanup)])"
proof -
  define p where "p = the (run (boot Production False)
      [InitResolved True True (Some True), Elapse 10000, Tick])"
  define p' where "p' = the (step p (ProbeResolved False False True))"
  have 1: "run (boot Production False)
      [InitResolved True True (Some True), Elapse 10000, Tick] = Some p"
    unfolding p_def by (simp add: eval_defs Let_def)
  have 2: "step p (ProbeResolved False False True) = Some p'"
    unfolding p'_def p_def by (simp add: eval_defs Let_def)
  have 3: "\<not> ready (st p')"
    unfolding p'_def p_def by (simp add: eval_defs Let_def)
  have 4: "history p = [ProbeBatch, MountServices] \<and> timers p = [] \<and> now p = 10000
         \<and> \<not> shutdown (st p)"
    unfolding p_def by (simp add: eval_defs Let_def)
  have "run (boot Production False)
      ([InitResolved True True (Some True), Elapse 10000, Tick]
       @ [ProbeResolved False False True]) = Some p'"
    using 1 2 by (simp only: run_append option.case run.simps)
  with failed_probe_triggers_shutdown [OF 2 3] 3 4 show ?thesis by simp
qed

section \<open>Before the first periodic batch completes\<close>

text \<open>
  A termination signal right after the start-up batch settled: five seconds later
  \<^verbatim>\<open>cleanup\<close> sets the shutdown flag, no periodic batch has completed or even started, and
  the gate answers "Server is shutting down", which is not "Server is not ready".
\<close>

theorem early_gate_says_shutting_down:
  "map_option st (run (boot Production False)
      [InitResolved True True (Some True), Signal, Elapse 5000, Timeout Cleanup])
     = Some \<lparr>connections = \<lparr>data = True, email = True, queue = True\<rparr>,
             mounted = False, ready = True, shutdown = True\<rparr>
 \<and> gate \<lparr>connections = \<lparr>data = True, email = True, queue = True\<rparr>,
          mounted = False, ready = True, shutdown = True\<rparr> ''GET /api/v1''
     = Send (Problem 503 ''Server is shutting down'')
 \<and> gate \<lparr>connections = \<lparr>data = True, email = True, queue = True\<rparr>,
          mounted = False, ready = True, shutdown = True\<rparr> ''GET /api/v1''
     \<noteq> Send (Problem 503 ''Server is not ready'')"
  by (simp add: eval_defs Let_def gate_def)

lemma unmounted_run:
  assumes "run p es = Some p'" and "list_all (\<lambda>ev. \<not> is_probe_result ev) es"
    and "\<not> mounted (st p)"
  shows "\<not> mounted (st p')"
  using assms
proof (induction es arbitrary: p)
  case Nil
  then show ?case by simp
next
  case (Cons ev es)
  from Cons.prems(1) obtain q where q: "step p ev = Some q" and r: "run q es = Some p'"
    by (auto split: option.splits)
  have "\<not> mounted (st q)"
    using q Cons.prems(2,3)
    by (cases ev) (auto simp: step_def is_probe_result_def split: if_splits)
  then show ?case using Cons.IH [OF r] Cons.prems(2) by simp
qed

text \<open>
  Claim C10, as amended. The mounted flag is false when the module has loaded and no
  step but the completion of a periodic batch with results assigns it, so in every
  execution in which no periodic batch has completed yet the gate admits no request, also
  when ready is true: it answers 503 "Server is not ready" while the shutdown flag is
  false, and 503 "Server is shutting down" once it is true.
\<close>

theorem refused_before_first_probe:
  assumes "run (boot e thrown) es = Some p"
    and "list_all (\<lambda>ev. \<not> is_probe_result ev) es"
  shows "\<not> mounted (st p)
       \<and> gate (st p) req =
           Send (Problem 503 (if shutdown (st p) then ''Server is shutting down''
                              else ''Server is not ready''))"
proof -
  have "\<not> mounted (st (boot e thrown))"
    by (simp add: boot_defs Let_def)
  then have "\<not> mounted (st p)"
    using unmounted_run [OF assms] by simp
  then show ?thesis by (simp add: gate_def)
qed

theorem refused_before_first_probe_witness:
  "map_option (\<lambda>p. (ready (st p), gate (st p) ''GET /api/v1''))
     (run (boot Production False) [InitResolved True True (Some True), Elapse 10000, Tick])
   = Some (True, Send (Problem 503 ''Server is not ready''))"
proof -
  define p where "p = the (run (boot Production False)
      [InitResolved True True (Some True), Elapse 10000, Tick])"
  have 1: "run (boot Production False)
      [InitResolved True True (Some True), Elapse 10000, Tick] = Some p"
    unfolding p_def by (simp add: eval_defs Let_def)
  have 2: "list_all (\<lambda>ev. \<not> is_probe_result ev)
      [InitResolved True True (Some True), Elapse 10000, Tick]"
    by (simp add: is_probe_result_def)
  have 3: "ready (st p) \<and> \<not> shutdown (st p)"
    unfolding p_def by (simp add: eval_defs Let_def)
  from refused_before_first_probe [OF 1 2, of "''GET /api/v1''"] 1 3 show ?thesis by simp
qed

end
